theory Spec2Isabelle
  imports Complex_Main
begin

section \<open>Data model of processing.cpp\<close>

text \<open>
  The target is a 32-bit ARM board: \<^verbatim>\<open>int\<close> and \<^verbatim>\<open>long\<close> are 32-bit signed
  integers and \<^verbatim>\<open>float\<close> is IEEE 754 binary32. Integers are modelled by \<open>int\<close>.
  Sample indices and counts are bounded by the length of a buffer, and their arithmetic is
  left unbounded. The product by 1000 in \<^verbatim>\<open>calcRrIntervals\<close> can leave the 32-bit
  range for a well-formed input: there the wrap-around of the target is written out.

  A \<^verbatim>\<open>float\<close> is modelled with the IEEE special values made explicit. Finite values are
  exact reals: rounding, overflow of finite results to infinity and the sign of zero are
  not modelled (a zero divisor is taken as \<open>+0\<close>). The one exception is the product
  \<^verbatim>\<open>min_distance * fs\<close> of the two detectors, which is rounded to binary32 before
  \<^verbatim>\<open>ceil\<close> is taken: the ceiling is not continuous, and the rounding decides the
  integer threshold.
\<close>

datatype cfloat = Fin real | PInf | NInf | NaN

text \<open>
  What the C code can do besides returning: write past the end of a heap block, read
  outside an array, divide an integer by zero or \<^verbatim>\<open>INT_MIN\<close> by \<open>-1\<close>, convert a
  non-finite or out-of-range float to \<^verbatim>\<open>int\<close>, or halt in \<^verbatim>\<open>while (1);\<close> after a
  failed allocation.
\<close>

datatype error =
  HeapOverflow | OutOfBoundsRead | DivisionByZero | SignedOverflow | UndefinedConversion | Halt

text \<open>A returned pointer: \<^verbatim>\<open>NULL\<close>, or a heap block with its contents.\<close>

datatype 'a carray = Null | Arr "'a list"

fun elems :: "'a carray \<Rightarrow> 'a list" where
  "elems Null = []"
| "elems (Arr xs) = xs"

text \<open>\<^verbatim>\<open>buf[n++] = v\<close> on a block of \<open>cap\<close> elements, \<open>n\<close> of them written so far.\<close>

definition store_next :: "int \<Rightarrow> 'a list \<Rightarrow> 'a \<Rightarrow> error + 'a list" where
  "store_next cap buf v = (if int (length buf) < cap then Inr (buf @ [v]) else Inl HeapOverflow)"

text \<open>\<^verbatim>\<open>a[i]\<close> as an rvalue.\<close>

definition rd :: "'a list \<Rightarrow> int \<Rightarrow> error + 'a" where
  "rd a i = (if 0 \<le> i \<and> i < int (length a) then Inr (a ! nat i) else Inl OutOfBoundsRead)"

text \<open>
  The values of a 32-bit \<^verbatim>\<open>int\<close>, and the result of an addition, subtraction or
  multiplication that leaves them: signed overflow is undefined in C, and the instructions
  of the target keep the low 32 bits.
\<close>

definition fits_int32 :: "int \<Rightarrow> bool" where
  "fits_int32 x = (- (2 ^ 31) \<le> x \<and> x < 2 ^ 31)"

definition wrap32 :: "int \<Rightarrow> int" where
  "wrap32 x = (x + 2 ^ 31) mod 2 ^ 32 - 2 ^ 31"

text \<open>
  C's integer division on 32-bit operands: the quotient truncated towards zero, and
  undefined behaviour for a zero divisor and for \<^verbatim>\<open>INT_MIN / -1\<close>.
\<close>

definition trunc_quot :: "int \<Rightarrow> int \<Rightarrow> int" where
  "trunc_quot a b = (if (a < 0) = (b < 0) then \<bar>a\<bar> div \<bar>b\<bar> else - (\<bar>a\<bar> div \<bar>b\<bar>))"

definition c_div :: "int \<Rightarrow> int \<Rightarrow> error + int" where
  "c_div a b =
     (if b = 0 then Inl DivisionByZero
      else if a = - (2 ^ 31) \<and> b = - 1 then Inl SignedOverflow
      else Inr (trunc_quot a b))"

text \<open>The conversion \<^verbatim>\<open>(float)x\<close> of an integer.\<close>

definition float_of_int :: "int \<Rightarrow> cfloat" where
  "float_of_int x = Fin (of_int x)"

subsection \<open>Float arithmetic\<close>

text \<open>
  The operations follow IEEE 754 on the special values: \<open>NaN\<close> propagates,
  \<open>\<infinity> - \<infinity>\<close>, \<open>0 * \<infinity>\<close>, \<open>0 / 0\<close> and \<open>\<infinity> / \<infinity>\<close> are \<open>NaN\<close>, a
  non-zero finite value divided by zero is an infinity, and every comparison with
  \<open>NaN\<close> is false.
\<close>

fun fneg :: "cfloat \<Rightarrow> cfloat" where
  "fneg (Fin a) = Fin (- a)"
| "fneg PInf = NInf"
| "fneg NInf = PInf"
| "fneg NaN = NaN"

fun fadd :: "cfloat \<Rightarrow> cfloat \<Rightarrow> cfloat" where
  "fadd (Fin a) (Fin b) = Fin (a + b)"
| "fadd NaN y = NaN"
| "fadd x NaN = NaN"
| "fadd PInf NInf = NaN"
| "fadd NInf PInf = NaN"
| "fadd PInf y = PInf"
| "fadd x PInf = PInf"
| "fadd NInf y = NInf"
| "fadd x NInf = NInf"

definition fsub :: "cfloat \<Rightarrow> cfloat \<Rightarrow> cfloat" where
  "fsub x y = fadd x (fneg y)"

text \<open>The sign of a float: \<open>Some True\<close> for positive, \<open>None\<close> for zero and \<open>NaN\<close>.\<close>

fun fsign :: "cfloat \<Rightarrow> bool option" where
  "fsign (Fin a) = (if a = 0 then None else Some (0 < a))"
| "fsign PInf = Some True"
| "fsign NInf = Some False"
| "fsign NaN = None"

definition signed_inf :: "bool \<Rightarrow> cfloat" where
  "signed_inf positive = (if positive then PInf else NInf)"

fun fmul :: "cfloat \<Rightarrow> cfloat \<Rightarrow> cfloat" where
  "fmul (Fin a) (Fin b) = Fin (a * b)"
| "fmul NaN y = NaN"
| "fmul x NaN = NaN"
| "fmul x y =
     (case (fsign x, fsign y) of
        (Some sx, Some sy) \<Rightarrow> signed_inf (sx = sy)
      | _ \<Rightarrow> NaN)"

fun fdiv :: "cfloat \<Rightarrow> cfloat \<Rightarrow> cfloat" where
  "fdiv (Fin a) (Fin b) =
     (if b \<noteq> 0 then Fin (a / b)
      else if a = 0 then NaN
      else signed_inf (0 < a))"
| "fdiv NaN y = NaN"
| "fdiv x NaN = NaN"
| "fdiv (Fin a) y = Fin 0"
| "fdiv x (Fin b) = (case fsign x of Some sx \<Rightarrow> signed_inf (sx = (0 \<le> b)) | None \<Rightarrow> NaN)"
| "fdiv x y = NaN"

fun fsqrt :: "cfloat \<Rightarrow> cfloat" where
  "fsqrt (Fin a) = (if a < 0 then NaN else Fin (sqrt a))"
| "fsqrt PInf = PInf"
| "fsqrt NInf = NaN"
| "fsqrt NaN = NaN"

text \<open>\<^verbatim>\<open>pow(x, n)\<close> for the integer exponents 2, 3 and 4 of the source.\<close>

definition fpow :: "cfloat \<Rightarrow> nat \<Rightarrow> cfloat" where
  "fpow x n =
     (if n = 0 then Fin 1
      else (case x of
              Fin a \<Rightarrow> Fin (a ^ n)
            | PInf \<Rightarrow> PInf
            | NInf \<Rightarrow> (if even n then PInf else NInf)
            | NaN \<Rightarrow> NaN))"

fun flt :: "cfloat \<Rightarrow> cfloat \<Rightarrow> bool" where
  "flt (Fin a) (Fin b) = (a < b)"
| "flt NaN y = False"
| "flt x NaN = False"
| "flt x NInf = False"
| "flt PInf y = False"
| "flt x y = True"

fun fle :: "cfloat \<Rightarrow> cfloat \<Rightarrow> bool" where
  "fle (Fin a) (Fin b) = (a \<le> b)"
| "fle NaN y = False"
| "fle x NaN = False"
| "fle NInf y = True"
| "fle x PInf = True"
| "fle x y = False"

definition fgt :: "cfloat \<Rightarrow> cfloat \<Rightarrow> bool" where
  "fgt x y = flt y x"

definition fge :: "cfloat \<Rightarrow> cfloat \<Rightarrow> bool" where
  "fge x y = fle y x"

text \<open>\<^verbatim>\<open>acc = 0; for (i = 0; i < n; i++) acc += a[i];\<close> over the whole array.\<close>

definition fsum :: "cfloat list \<Rightarrow> cfloat" where
  "fsum a = foldl fadd (Fin 0) a"

text \<open>
  Rounding to binary32, to nearest with ties to even. \<open>quantum k a\<close> searches downwards
  from \<open>k - 149\<close> for the exponent of the unit in the last place of a float of magnitude
  \<open>a\<close>: the largest \<open>e\<close> with \<open>2 ^ (e + 23) \<le> a\<close>, and \<open>-149\<close>, the exponent of the
  subnormal numbers, when there is none. \<open>fround x\<close> is the multiple of that unit nearest
  to \<open>x\<close>, and an infinity when it reaches \<open>2 ^ 128\<close>.
\<close>

definition round_half_even :: "real \<Rightarrow> int" where
  "round_half_even s =
     (let f = \<lfloor>s\<rfloor>; r = s - of_int f
      in if r < 1 / 2 then f
         else if 1 / 2 < r then f + 1
         else if even f then f else f + 1)"

fun quantum :: "nat \<Rightarrow> real \<Rightarrow> int" where
  "quantum 0 a = - 149"
| "quantum (Suc k) a =
     (if 2 powi (int (Suc k) - 126) \<le> a then int (Suc k) - 149 else quantum k a)"

definition fround :: "real \<Rightarrow> cfloat" where
  "fround x =
     (let q = quantum 253 \<bar>x\<bar>;
          r = of_int (round_half_even (x / 2 powi q)) * 2 powi q
      in if 2 powi 128 \<le> \<bar>r\<bar> then signed_inf (0 < x) else Fin r)"

text \<open>
  \<^verbatim>\<open>(int)ceil(min_distance * fs)\<close>: \<^verbatim>\<open>fs\<close> is converted to \<^verbatim>\<open>float\<close>, the
  product is a \<^verbatim>\<open>float\<close> product and so rounded to binary32, and the conversion of its
  ceiling to \<^verbatim>\<open>int\<close> is undefined when the product is not finite or the ceiling is
  not a value of \<^verbatim>\<open>int\<close>.
\<close>

definition th_elapsed :: "cfloat \<Rightarrow> int \<Rightarrow> error + int" where
  "th_elapsed min_distance fs =
     (case fmul min_distance (fround (of_int fs)) of
        Fin x \<Rightarrow>
          (case fround x of
             Fin y \<Rightarrow> (if fits_int32 \<lceil>y\<rceil> then Inr \<lceil>y\<rceil> else Inl UndefinedConversion)
           | _ \<Rightarrow> Inl UndefinedConversion)
      | _ \<Rightarrow> Inl UndefinedConversion)"

text \<open>
  The refractory test shared by both detectors:
  \<^verbatim>\<open>n == 0 || (x - accepted[n - 1]) > TH_elapsed\<close>.
\<close>

definition distance_ok :: "int list \<Rightarrow> int \<Rightarrow> int \<Rightarrow> error + bool" where
  "distance_ok accepted x TH_elapsed =
     (if length accepted = 0 then Inr True
      else (case rd accepted (int (length accepted) - 1) of
              Inl e \<Rightarrow> Inl e
            | Inr prev \<Rightarrow> Inr (x - prev > TH_elapsed)))"

section \<open>removeZero\<close>

text \<open>First pass of \<^verbatim>\<open>removeZero\<close>: count the non-zero elements.\<close>

fun removeZero_count :: "int list \<Rightarrow> int \<Rightarrow> int" where
  "removeZero_count [] count = count"
| "removeZero_count (x # xs) count =
     (if x \<noteq> 0 then removeZero_count xs (count + 1) else removeZero_count xs count)"

text \<open>Second pass: \<^verbatim>\<open>output[j++] = (float)input[i]\<close> for the non-zero elements.\<close>

fun removeZero_copy :: "int \<Rightarrow> int list \<Rightarrow> cfloat list \<Rightarrow> error + cfloat list" where
  "removeZero_copy cap [] output = Inr output"
| "removeZero_copy cap (x # xs) output =
     (if x \<noteq> 0 then
        (case store_next cap output (float_of_int x) of
           Inl e \<Rightarrow> Inl e
         | Inr output' \<Rightarrow> removeZero_copy cap xs output')
      else removeZero_copy cap xs output)"

text \<open>
  \<open>malloc_ok n\<close> says whether \<^verbatim>\<open>malloc\<close> of \<open>n\<close> bytes returns a block. The result is
  the returned block and \<^verbatim>\<open>*newSize\<close>.
\<close>

definition removeZero :: "(int \<Rightarrow> bool) \<Rightarrow> int list \<Rightarrow> error + (cfloat carray \<times> int)" where
  "removeZero malloc_ok input =
     (let count = removeZero_count input 0 in
      if \<not> malloc_ok (count * 4) then Inl Halt
      else (case removeZero_copy count input [] of
              Inl e \<Rightarrow> Inl e
            | Inr output \<Rightarrow> Inr (Arr output, count)))"

section \<open>eliminateNoiseInTime, basic overload\<close>

text \<open>
  Memory is a store from addresses to floats; the pointers \<^verbatim>\<open>data\<close> and \<^verbatim>\<open>ths\<close>
  are addresses. The body of the function is empty, and it returns \<^verbatim>\<open>void\<close>: the
  model returns the store after the call.
\<close>

type_synonym store = "nat \<Rightarrow> cfloat option"

definition eliminateNoiseInTime_void :: "store \<Rightarrow> nat \<Rightarrow> int \<Rightarrow> int \<Rightarrow> nat \<Rightarrow> int \<Rightarrow> store" where
  "eliminateNoiseInTime_void mem data sz fs ths cycle = mem"

section \<open>pairValley\<close>

text \<open>
  The loop \<^verbatim>\<open>for (i = 0; i < valley_count - 1; i++)\<close>; \<open>paired\<close> holds the
  pairs \<open>0 .. i - 1\<close> written so far.
\<close>

function pairValley_loop :: "int list \<Rightarrow> int \<Rightarrow> nat \<Rightarrow> (int \<times> int) list \<Rightarrow> error + (int \<times> int) list" where
  "pairValley_loop valleys valley_count i paired =
     (if int i < valley_count - 1 then
        (case rd valleys (int i) of
           Inl e \<Rightarrow> Inl e
         | Inr v0 \<Rightarrow>
             (case rd valleys (int i + 1) of
                Inl e \<Rightarrow> Inl e
              | Inr v1 \<Rightarrow>
                  (case store_next (valley_count - 1) paired (v0, v1) of
                     Inl e \<Rightarrow> Inl e
                   | Inr paired' \<Rightarrow> pairValley_loop valleys valley_count (Suc i) paired')))
      else Inr paired)"
  by pat_completeness auto
termination
  by (relation "measure (\<lambda>(valleys, valley_count, i, paired). nat (valley_count - 1 - int i))") auto

declare pairValley_loop.simps [simp del]

definition pairValley :: "int list \<Rightarrow> error + (int \<times> int) list" where
  "pairValley valleys = pairValley_loop valleys (int (length valleys)) 0 []"

section \<open>calcRrIntervals\<close>

text \<open>
  The loop \<^verbatim>\<open>for (i = 1; i < peakCount; i++)\<close>. The difference of the two peaks and
  its product by 1000 are 32-bit operations.
\<close>

function calcRr_loop :: "int list \<Rightarrow> int \<Rightarrow> int \<Rightarrow> nat \<Rightarrow> int list \<Rightarrow> error + int list" where
  "calcRr_loop peaks peakCount fs i rr_intervals =
     (if int i < peakCount then
        (case rd peaks (int i) of
           Inl e \<Rightarrow> Inl e
         | Inr p1 \<Rightarrow>
             (case rd peaks (int i - 1) of
                Inl e \<Rightarrow> Inl e
              | Inr p0 \<Rightarrow>
                  (case c_div (wrap32 (wrap32 (p1 - p0) * 1000)) fs of
                     Inl e \<Rightarrow> Inl e
                   | Inr rr_interval \<Rightarrow>
                       if rr_interval \<ge> 300 \<and> rr_interval \<le> 1500 then
                         (case store_next (peakCount - 1) rr_intervals rr_interval of
                            Inl e \<Rightarrow> Inl e
                          | Inr rr' \<Rightarrow> calcRr_loop peaks peakCount fs (Suc i) rr')
                       else calcRr_loop peaks peakCount fs (Suc i) rr_intervals)))
      else Inr rr_intervals)"
  by pat_completeness auto
termination
  by (relation "measure (\<lambda>(peaks, peakCount, fs, i, rr). nat (peakCount - int i))") auto

declare calcRr_loop.simps [simp del]

text \<open>The result is the returned pointer and \<^verbatim>\<open>*rrCount\<close>.\<close>

definition calcRrIntervals :: "int list \<Rightarrow> int \<Rightarrow> error + (int carray \<times> int)" where
  "calcRrIntervals peaks fs =
     (let peakCount = int (length peaks) in
      if peakCount < 2 then Inr (Null, 0)
      else (case calcRr_loop peaks peakCount fs 1 [] of
              Inl e \<Rightarrow> Inl e
            | Inr rr_intervals \<Rightarrow> Inr (Arr rr_intervals, int (length rr_intervals))))"

section \<open>movingAverageFilter\<close>







section \<open>valleyDetection\<close>








section \<open>thresholdPeakDetection\<close>

text \<open>
  The scan \<^verbatim>\<open>for (i = 1; i < size - 1; i++)\<close>. \<open>peakList\<close> holds the
  \<^verbatim>\<open>peak_idx\<close> peaks accepted so far, in a block of \<^verbatim>\<open>max_peaks\<close> elements.
\<close>

function peak_scan :: "cfloat list \<Rightarrow> int \<Rightarrow> int \<Rightarrow> cfloat \<Rightarrow> int \<Rightarrow> nat \<Rightarrow> int list \<Rightarrow> error + int list" where
  "peak_scan dataset sz max_peaks local_average TH_elapsed i peakList =
     (if int i < sz - 1 then
        (case rd dataset (int i) of
           Inl e \<Rightarrow> Inl e
         | Inr d \<Rightarrow>
             (case rd dataset (int i - 1) of
                Inl e \<Rightarrow> Inl e
              | Inr dprev \<Rightarrow>
                  (case rd dataset (int i + 1) of
                     Inl e \<Rightarrow> Inl e
                   | Inr dnext \<Rightarrow>
                       if fge d local_average \<and> fgt d dprev \<and> fgt d dnext then
                         (case distance_ok peakList (int i) TH_elapsed of
                            Inl e \<Rightarrow> Inl e
                          | Inr ok \<Rightarrow>
                              if ok then
                                (case store_next max_peaks peakList (int i) of
                                   Inl e \<Rightarrow> Inl e
                                 | Inr peakList' \<Rightarrow>
                                     peak_scan dataset sz max_peaks local_average TH_elapsed (Suc i) peakList')
                              else peak_scan dataset sz max_peaks local_average TH_elapsed (Suc i) peakList)
                       else peak_scan dataset sz max_peaks local_average TH_elapsed (Suc i) peakList)))
      else Inr peakList)"
  by pat_completeness auto
termination
  by (relation "measure (\<lambda>(dataset, sz, max_peaks, local_average, TH_elapsed, i, peakList). nat (sz - 1 - int i))") auto

declare peak_scan.simps [simp del]

text \<open>The result is the returned block and \<^verbatim>\<open>*peak_count\<close>.\<close>

definition thresholdPeakDetection :: "cfloat list \<Rightarrow> int \<Rightarrow> cfloat \<Rightarrow> cfloat \<Rightarrow> error + (int carray \<times> int)" where
  "thresholdPeakDetection dataset fs threshold_factor min_distance =
     (let sz = int (length dataset);
          max_peaks = sz div 10;
          local_average = fmul (fdiv (fsum dataset) (float_of_int sz)) threshold_factor
      in case th_elapsed min_distance fs of
           Inl e \<Rightarrow> Inl e
         | Inr TH_elapsed \<Rightarrow>
             (case peak_scan dataset sz max_peaks local_average TH_elapsed 1 [] of
                Inl e \<Rightarrow> Inl e
              | Inr peakList \<Rightarrow> Inr (Arr peakList, int (length peakList))))"

text \<open>
  The refractory property of a sequence of accepted indices: each one is more than
  \<open>th\<close> samples after the one before it.
\<close>

fun refractory :: "int \<Rightarrow> int list \<Rightarrow> bool" where
  "refractory th (a # b # xs) = (b - a > th \<and> refractory th (b # xs))"
| "refractory th xs = True"

section \<open>statisticDetection and statisticThreshold\<close>

text \<open>
  The loop \<^verbatim>\<open>for (j = start; j <= end; j++) acc = body(acc, signal[j])\<close> that the
  function runs four times over each segment.
\<close>

function segment_loop :: "(cfloat \<Rightarrow> cfloat \<Rightarrow> cfloat) \<Rightarrow> cfloat list \<Rightarrow> int \<Rightarrow> int \<Rightarrow> cfloat \<Rightarrow> error + cfloat" where
  "segment_loop body signal j end_i acc =
     (if j \<le> end_i then
        (case rd signal j of
           Inl e \<Rightarrow> Inl e
         | Inr x \<Rightarrow> segment_loop body signal (j + 1) end_i (body acc x))
      else Inr acc)"
  by pat_completeness auto
termination
  by (relation "measure (\<lambda>(body, signal, j, end_i, acc). nat (end_i + 1 - j))") auto

declare segment_loop.simps [simp del]

text \<open>
  The body of the loop over the segments: standard deviation, kurtosis and skewness of
  the samples \<^verbatim>\<open>signal[start .. end]\<close>.
\<close>

definition segment_statistics :: "cfloat list \<Rightarrow> int \<times> int \<Rightarrow> error + (cfloat \<times> cfloat \<times> cfloat)" where
  "segment_statistics signal seg =
     (let start = fst seg; end_i = snd seg;
          len = float_of_int (end_i - start + 1)
      in case segment_loop (\<lambda>acc x. fadd acc x) signal start end_i (Fin 0) of
           Inl e \<Rightarrow> Inl e
         | Inr sum_s \<Rightarrow>
             (let mean = fdiv sum_s len
              in case segment_loop (\<lambda>acc x. fadd acc (fpow (fsub x mean) 2)) signal start end_i (Fin 0) of
                   Inl e \<Rightarrow> Inl e
                 | Inr variance_sum \<Rightarrow>
                     (let variance = fdiv variance_sum len
                      in case segment_loop (\<lambda>acc x. fadd acc (fpow (fsub x mean) 4)) signal start end_i (Fin 0) of
                           Inl e \<Rightarrow> Inl e
                         | Inr fourth_moment \<Rightarrow>
                             (case segment_loop (\<lambda>acc x. fadd acc (fpow (fsub x mean) 3)) signal start end_i (Fin 0) of
                                Inl e \<Rightarrow> Inl e
                              | Inr third_moment \<Rightarrow>
                                  Inr (fsqrt variance,
                                       fsub (fdiv (fdiv fourth_moment len) (fmul variance variance)) (Fin 3),
                                       fdiv (fdiv third_moment len) (fpow (fsqrt variance) 3))))))"

text \<open>
  The loop \<^verbatim>\<open>for (i = 0; i < valley_count; i++)\<close> over the segments, writing
  \<^verbatim>\<open>stds[i]\<close>, \<^verbatim>\<open>kurtosiss[i]\<close> and \<^verbatim>\<open>skews[i]\<close>.
\<close>

fun statistic_loop :: "cfloat list \<Rightarrow> (int \<times> int) list \<Rightarrow> cfloat list \<times> cfloat list \<times> cfloat list
    \<Rightarrow> error + (cfloat list \<times> cfloat list \<times> cfloat list)" where
  "statistic_loop signal [] written = Inr written"
| "statistic_loop signal (seg # valleys) (stds, kurtosiss, skews) =
     (case segment_statistics signal seg of
        Inl e \<Rightarrow> Inl e
      | Inr (sd, kurt, skew) \<Rightarrow>
          statistic_loop signal valleys (stds @ [sd], kurtosiss @ [kurt], skews @ [skew]))"

text \<open>The result is the contents of the three output arrays after the call.\<close>

definition statisticDetection :: "cfloat list \<Rightarrow> (int \<times> int) list
    \<Rightarrow> error + (cfloat list \<times> cfloat list \<times> cfloat list)" where
  "statisticDetection signal valleys = statistic_loop signal valleys ([], [], [])"

text \<open>
  The three arrays hold \<^verbatim>\<open>valley_count\<close> elements each and \<^verbatim>\<open>ths\<close> holds four.
  The result is \<^verbatim>\<open>(*std_ths, *kurt_ths, skews_ths[0], skews_ths[1])\<close>.
\<close>

definition statisticThreshold :: "cfloat list \<Rightarrow> cfloat list \<Rightarrow> cfloat list
    \<Rightarrow> cfloat \<times> cfloat \<times> cfloat \<times> cfloat \<Rightarrow> cfloat \<times> cfloat \<times> cfloat \<times> cfloat" where
  "statisticThreshold stds kurtosiss skews ths =
     (case ths of (ths0, ths1, ths2, ths3) \<Rightarrow>
        (let valley_count = float_of_int (int (length stds));
             std_sum = fsum stds; kurt_sum = fsum kurtosiss; skew_sum = fsum skews
         in (fadd (fdiv std_sum valley_count) ths0,
             fadd (fdiv kurt_sum valley_count) ths1,
             fsub (fdiv skew_sum valley_count) ths2,
             fadd (fdiv skew_sum valley_count) ths3)))"

section \<open>eliminateNoiseInTime, segment overload\<close>

text \<open>Step 3: the loop that collects the indices of the segments within the thresholds.\<close>

function valid_loop :: "cfloat list \<Rightarrow> cfloat list \<Rightarrow> cfloat list \<Rightarrow> int
    \<Rightarrow> cfloat \<times> cfloat \<times> cfloat \<times> cfloat \<Rightarrow> nat \<Rightarrow> int list \<Rightarrow> error + int list" where
  "valid_loop stds kurtosiss skews valley_count thr i valid_indices =
     (if int i < valley_count then
        (case rd stds (int i) of
           Inl e \<Rightarrow> Inl e
         | Inr sd \<Rightarrow>
             (case rd kurtosiss (int i) of
                Inl e \<Rightarrow> Inl e
              | Inr kurt \<Rightarrow>
                  (case rd skews (int i) of
                     Inl e \<Rightarrow> Inl e
                   | Inr skew \<Rightarrow>
                       (case thr of (std_ths, kurt_ths, skews_ths0, skews_ths1) \<Rightarrow>
                          if flt sd std_ths \<and> flt kurt kurt_ths \<and> fgt skew skews_ths0 \<and> flt skew skews_ths1 then
                            (case store_next valley_count valid_indices (int i) of
                               Inl e \<Rightarrow> Inl e
                             | Inr valid' \<Rightarrow> valid_loop stds kurtosiss skews valley_count thr (Suc i) valid')
                          else valid_loop stds kurtosiss skews valley_count thr (Suc i) valid_indices))))
      else Inr valid_indices)"
  by pat_completeness auto
termination
  by (relation "measure (\<lambda>(stds, kurtosiss, skews, valley_count, thr, i, valid). nat (valley_count - int i))") auto

declare valid_loop.simps [simp del]

text \<open>Step 4: the size of the filtered data.\<close>

fun final_size_loop :: "(int \<times> int) list \<Rightarrow> int list \<Rightarrow> int \<Rightarrow> error + int" where
  "final_size_loop valleys [] final_size = Inr final_size"
| "final_size_loop valleys (vi # valid_indices) final_size =
     (case rd valleys vi of
        Inl e \<Rightarrow> Inl e
      | Inr seg \<Rightarrow> final_size_loop valleys valid_indices (final_size + (snd seg - fst seg + 1)))"

text \<open>
  Step 5: \<^verbatim>\<open>filtered_data[idx++] = data[j]\<close> for \<open>j\<close> from the start to the end of one
  segment, and the loop over the valid segments around it.
\<close>

function copy_segment :: "cfloat list \<Rightarrow> int \<Rightarrow> int \<Rightarrow> int \<Rightarrow> cfloat list \<Rightarrow> error + cfloat list" where
  "copy_segment data final_size j end_i filtered_data =
     (if j \<le> end_i then
        (case rd data j of
           Inl e \<Rightarrow> Inl e
         | Inr x \<Rightarrow>
             (case store_next final_size filtered_data x of
                Inl e \<Rightarrow> Inl e
              | Inr filtered' \<Rightarrow> copy_segment data final_size (j + 1) end_i filtered'))
      else Inr filtered_data)"
  by pat_completeness auto
termination
  by (relation "measure (\<lambda>(data, final_size, j, end_i, filtered). nat (end_i + 1 - j))") auto

declare copy_segment.simps [simp del]

fun copy_loop :: "cfloat list \<Rightarrow> (int \<times> int) list \<Rightarrow> int \<Rightarrow> int list \<Rightarrow> cfloat list \<Rightarrow> error + cfloat list" where
  "copy_loop data valleys final_size [] filtered_data = Inr filtered_data"
| "copy_loop data valleys final_size (vi # valid_indices) filtered_data =
     (case rd valleys vi of
        Inl e \<Rightarrow> Inl e
      | Inr seg \<Rightarrow>
          (case copy_segment data final_size (fst seg) (snd seg) filtered_data of
             Inl e \<Rightarrow> Inl e
           | Inr filtered' \<Rightarrow> copy_loop data valleys final_size valid_indices filtered'))"

text \<open>The result is the returned block and \<^verbatim>\<open>*newSize\<close>.\<close>

definition eliminateNoiseInTime :: "cfloat list \<Rightarrow> cfloat \<times> cfloat \<times> cfloat \<times> cfloat \<Rightarrow> (int \<times> int) list
    \<Rightarrow> error + (cfloat carray \<times> int)" where
  "eliminateNoiseInTime data ths valleys =
     (case statisticDetection data valleys of
        Inl e \<Rightarrow> Inl e
      | Inr (stds, kurtosiss, skews) \<Rightarrow>
          (let thr = statisticThreshold stds kurtosiss skews ths
           in case valid_loop stds kurtosiss skews (int (length valleys)) thr 0 [] of
                Inl e \<Rightarrow> Inl e
              | Inr valid_indices \<Rightarrow>
                  (case final_size_loop valleys valid_indices 0 of
                     Inl e \<Rightarrow> Inl e
                   | Inr final_size \<Rightarrow>
                       (case copy_loop data valleys final_size valid_indices [] of
                          Inl e \<Rightarrow> Inl e
                        | Inr filtered_data \<Rightarrow> Inr (Arr filtered_data, final_size)))))"

text \<open>The samples \<^verbatim>\<open>data[start .. end]\<close> of a segment, both ends included.\<close>

definition segment_samples :: "cfloat list \<Rightarrow> int \<times> int \<Rightarrow> cfloat list" where
  "segment_samples data seg = map (\<lambda>j. data ! nat j) [fst seg..snd seg]"

text \<open>The retention test of the segment at position \<open>i\<close>, on given statistics and thresholds.\<close>

definition retained :: "cfloat list \<times> cfloat list \<times> cfloat list \<Rightarrow> cfloat \<times> cfloat \<times> cfloat \<times> cfloat \<Rightarrow> nat \<Rightarrow> bool" where
  "retained stats thr i =
     (case stats of (stds, kurtosiss, skews) \<Rightarrow>
      case thr of (std_ths, kurt_ths, skew_low, skew_high) \<Rightarrow>
        flt (stds ! i) std_ths \<and> flt (kurtosiss ! i) kurt_ths
        \<and> flt skew_low (skews ! i) \<and> flt (skews ! i) skew_high)"

section \<open>calculateHRVMetrics\<close>

text \<open>The loop \<^verbatim>\<open>for (i = 1; i < rrCount; i++)\<close> over the successive differences.\<close>

function sumOfSquares_loop :: "int list \<Rightarrow> nat \<Rightarrow> cfloat \<Rightarrow> error + cfloat" where
  "sumOfSquares_loop rr_intervals i sumOfSquares =
     (if i < length rr_intervals then
        (case rd rr_intervals (int i) of
           Inl e \<Rightarrow> Inl e
         | Inr r1 \<Rightarrow>
             (case rd rr_intervals (int i - 1) of
                Inl e \<Rightarrow> Inl e
              | Inr r0 \<Rightarrow>
                  (let diff = float_of_int (r1 - r0)
                   in sumOfSquares_loop rr_intervals (Suc i) (fadd sumOfSquares (fmul diff diff)))))
      else Inr sumOfSquares)"
  by pat_completeness auto
termination
  by (relation "measure (\<lambda>(rr_intervals, i, sumOfSquares). length rr_intervals - i)") auto

declare sumOfSquares_loop.simps [simp del]

text \<open>
  The result is the returned block and \<^verbatim>\<open>*metricsCount\<close>: \<open>(Null, 0)\<close> is the
  failure result, and otherwise the block holds heart rate, SDNN and RMSSD.
\<close>

definition calculateHRVMetrics :: "int list \<Rightarrow> error + (cfloat carray \<times> int)" where
  "calculateHRVMetrics rr_intervals =
     (let rrCount = int (length rr_intervals) in
      if rrCount = 0 then Inr (Null, 0)
      else
        (let sumRR = fsum (map float_of_int rr_intervals);
             avgRR = fdiv sumRR (float_of_int rrCount);
             heartRate = fdiv (Fin 60000) avgRR;
             varianceRR = foldl (\<lambda>acc r. fadd acc (fpow (fsub (float_of_int r) avgRR) 2)) (Fin 0) rr_intervals;
             sdnn = fsqrt (fdiv varianceRR (float_of_int rrCount))
         in case sumOfSquares_loop rr_intervals 1 (Fin 0) of
              Inl e \<Rightarrow> Inl e
            | Inr sumOfSquares \<Rightarrow>
                (let rmssd = fsqrt (fdiv sumOfSquares (float_of_int (rrCount - 1)))
                 in Inr (Arr [heartRate, sdnn, rmssd], 3))))"

section \<open>Verification\<close>

subsection \<open>Rounding to binary32\<close>

lemma two_powi_less_imp: "(2::real) powi m < 2 powi n \<Longrightarrow> m < n"
proof (rule ccontr)
  assume l: "(2::real) powi m < 2 powi n" and "\<not> m < n"
  then have "n \<le> m" by simp
  then have "(2::real) powi n \<le> 2 powi m" by (rule power_int_increasing) simp
  with l show False by simp
qed

lemma quantum_eq:
  "e \<le> int k - 149 \<Longrightarrow> - 149 \<le> e \<Longrightarrow> 2 powi (e + 23) \<le> a \<Longrightarrow> a < 2 powi (e + 24) \<Longrightarrow>
   quantum k a = e"
proof (induction k)
  case 0
  then show ?case by simp
next
  case (Suc k)
  show ?case
  proof (cases "2 powi (int (Suc k) - 126) \<le> a")
    case True
    with Suc.prems(4) have "(2::real) powi (int (Suc k) - 126) < 2 powi (e + 24)" by linarith
    then have "int (Suc k) - 126 < e + 24"
      by (rule two_powi_less_imp)
    with Suc.prems(1) True show ?thesis by simp
  next
    case False
    with Suc.prems(3) have "(2::real) powi (e + 23) < 2 powi (int (Suc k) - 126)" by linarith
    then have "e + 23 < int (Suc k) - 126"
      by (rule two_powi_less_imp)
    then have "e \<le> int k - 149" by simp
    from Suc.IH [OF this Suc.prems(2,3,4)] False show ?thesis by simp
  qed
qed

lemma quantum_tiny: "a < 2 powi (- 126) \<Longrightarrow> quantum k a = - 149"
proof (induction k)
  case 0
  show ?case by simp
next
  case (Suc k)
  have "(2::real) powi (- 126) \<le> 2 powi (int (Suc k) - 126)"
    by (rule power_int_increasing) simp_all
  with Suc show ?case by simp
qed

lemma fround_binade:
  assumes "- 149 \<le> e" "e \<le> 104" "2 powi (e + 23) \<le> \<bar>x\<bar>" "\<bar>x\<bar> < 2 powi (e + 24)"
  shows "fround x =
     (let r = of_int (round_half_even (x / 2 powi e)) * 2 powi e
      in if 2 powi 128 \<le> \<bar>r\<bar> then signed_inf (0 < x) else Fin r)"
proof -
  have "quantum 253 \<bar>x\<bar> = e"
    using assms by (intro quantum_eq) simp_all
  then show ?thesis by (simp add: fround_def)
qed

lemma fround_0: "fround 0 = Fin 0"
  by (simp add: fround_def quantum_tiny round_half_even_def)

lemma fround_25: "fround 25 = Fin 25"
  by (subst fround_binade [of "- 19"]) (simp_all add: round_half_even_def power_int_minus)

lemma fround_10: "fround 10 = Fin 10"
  by (subst fround_binade [of "- 20"]) (simp_all add: round_half_even_def power_int_minus)


lemma th_elapsed_0_25: "th_elapsed (Fin 0) 25 = Inr 0"
  by (simp add: th_elapsed_def fround_25 fround_0 fits_int32_def)

lemma th_elapsed_04_25: "th_elapsed (Fin (2 / 5)) 25 = Inr 10"
  by (simp add: th_elapsed_def fround_25 fround_10 fits_int32_def)


subsection \<open>Segment pairing, zero removal and RR intervals\<close>

lemma pairValley_loop_eq:
  "valley_count = int (length valleys) \<Longrightarrow> length paired = i \<Longrightarrow>
   pairValley_loop valleys valley_count i paired =
     Inr (paired @ map (\<lambda>k. (valleys ! k, valleys ! (k + 1))) [i..<length valleys - 1])"
proof (induction valleys valley_count i paired rule: pairValley_loop.induct)
  case (1 valleys valley_count i paired)
  show ?case
  proof (cases "int i < valley_count - 1")
    case True
    with "1.prems" have lt: "i < length valleys - 1" by linarith
    have r0: "rd valleys (int i) = Inr (valleys ! i)"
      using lt by (simp add: rd_def)
    have r1: "rd valleys (int i + 1) = Inr (valleys ! (i + 1))"
      using lt by (simp add: rd_def nat_add_distrib)
    have st: "store_next (valley_count - 1) paired (valleys ! i, valleys ! (i + 1)) =
                Inr (paired @ [(valleys ! i, valleys ! (i + 1))])"
      using True "1.prems" by (simp add: store_next_def)
    have "pairValley_loop valleys valley_count (Suc i) (paired @ [(valleys ! i, valleys ! (i + 1))]) =
            Inr ((paired @ [(valleys ! i, valleys ! (i + 1))]) @
                 map (\<lambda>k. (valleys ! k, valleys ! (k + 1))) [Suc i..<length valleys - 1])"
      using "1.IH" [OF True r0 r1 st] "1.prems" by simp
    then show ?thesis
      using True r0 r1 st lt
      by (subst pairValley_loop.simps) (simp add: upt_conv_Cons)
  next
    case False
    with "1.prems" have "\<not> i < length valleys - 1" by linarith
    then show ?thesis
      using False by (subst pairValley_loop.simps) simp
  qed
qed

text \<open>
  Claim C7. On \<open>N\<close> valleys \<^verbatim>\<open>pairValley\<close> returns without error exactly
  \<open>max (N - 1) 0\<close> segments, and segment \<open>i\<close> is the pair
  \<open>(valleys[i], valleys[i + 1])\<close>; with no valley or one valley the result is the empty
  list of segments.
\<close>

theorem pairValley_segments:
  "\<exists>segs. pairValley valleys = Inr segs
     \<and> int (length segs) = max (int (length valleys) - 1) 0
     \<and> segs = map (\<lambda>i. (valleys ! i, valleys ! (i + 1))) [0..<length valleys - 1]"
  using pairValley_loop_eq [of "int (length valleys)" valleys "[]" 0]
  by (auto simp: pairValley_def)

lemma removeZero_count_eq:
  "removeZero_count xs count = count + int (length (filter (\<lambda>x. x \<noteq> 0) xs))"
  by (induction xs arbitrary: count) auto

lemma removeZero_copy_eq:
  "int (length outp) + int (length (filter (\<lambda>x. x \<noteq> 0) xs)) \<le> cap \<Longrightarrow>
   removeZero_copy cap xs outp = Inr (outp @ map float_of_int (filter (\<lambda>x. x \<noteq> 0) xs))"
  by (induction xs arbitrary: outp) (auto simp: store_next_def split: if_splits)

text \<open>
  Claim C9. When the allocation of the output block succeeds, \<^verbatim>\<open>removeZero\<close>
  returns the non-zero elements of its input, converted to float, in their original order,
  and sets \<^verbatim>\<open>*newSize\<close> to their number; only the zero elements are dropped.
\<close>

theorem removeZero_nonzero_subsequence:
  assumes "malloc_ok (4 * int (length (filter (\<lambda>x. x \<noteq> 0) input)))"
  shows "removeZero malloc_ok input =
           Inr (Arr (map float_of_int (filter (\<lambda>x. x \<noteq> 0) input)),
                int (length (filter (\<lambda>x. x \<noteq> 0) input)))"
  using assms removeZero_copy_eq [of "[]" input "int (length (filter (\<lambda>x. x \<noteq> 0) input))"]
  by (simp add: removeZero_def removeZero_count_eq mult.commute)

theorem removeZero_nonzero_subsequence_witness:
  "removeZero (\<lambda>n. n \<le> 8192) [3, 0, - 2, 0, 7] = Inr (Arr [Fin 3, Fin (- 2), Fin 7], 3)"
  using removeZero_nonzero_subsequence [of "\<lambda>n. n \<le> 8192" "[3, 0, - 2, 0, 7]"]
  by (simp add: float_of_int_def)

text \<open>
  Claim C10. The basic overload of \<^verbatim>\<open>eliminateNoiseInTime\<close> leaves the whole
  memory, and with it the data buffer, as it was, for every argument; it returns nothing.
\<close>

theorem eliminateNoiseInTime_void_noop:
  "eliminateNoiseInTime_void mem data sz fs ths cycle = mem"
  by (simp add: eliminateNoiseInTime_void_def)

lemma wrap32_id: "fits_int32 x \<Longrightarrow> wrap32 x = x"
  by (simp add: fits_int32_def wrap32_def)

lemma fits_int32_factor: "fits_int32 (d * 1000) \<Longrightarrow> fits_int32 d"
  by (auto simp: fits_int32_def)

lemma calcRr_loop_eq:
  "0 < fs \<Longrightarrow> peakCount = int (length peaks) \<Longrightarrow> 1 \<le> i \<Longrightarrow> length rr < i \<Longrightarrow>
   \<forall>k\<in>{i..<length peaks}. fits_int32 ((peaks ! k - peaks ! (k - 1)) * 1000) \<Longrightarrow>
   calcRr_loop peaks peakCount fs i rr =
     Inr (rr @ filter (\<lambda>r. 300 \<le> r \<and> r \<le> 1500)
                 (map (\<lambda>k. trunc_quot ((peaks ! k - peaks ! (k - 1)) * 1000) fs) [i..<length peaks]))"
proof (induction peaks peakCount fs i rr rule: calcRr_loop.induct)
  case (1 peaks peakCount fs i rr)
  let ?d = "peaks ! i - peaks ! (i - 1)"
  let ?q = "trunc_quot (?d * 1000) fs"
  show ?case
  proof (cases "int i < peakCount")
    case True
    with "1.prems" have lt: "i < length peaks" by linarith
    have r1: "rd peaks (int i) = Inr (peaks ! i)"
      using lt by (simp add: rd_def)
    have r0: "rd peaks (int i - 1) = Inr (peaks ! (i - 1))"
      using lt "1.prems" by (simp add: rd_def nat_diff_distrib)
    have fit: "fits_int32 (?d * 1000)"
      using "1.prems"(5) lt by simp
    then have w: "wrap32 (wrap32 ?d * 1000) = ?d * 1000"
      by (simp add: wrap32_id fits_int32_factor)
    have dv: "c_div (wrap32 (wrap32 ?d * 1000)) fs = Inr ?q"
      unfolding w using "1.prems"(1) by (simp add: c_div_def)
    have st: "store_next (peakCount - 1) rr ?q = Inr (rr @ [?q])"
      using lt "1.prems" by (simp add: store_next_def)
    have rest: "\<forall>k\<in>{Suc i..<length peaks}. fits_int32 ((peaks ! k - peaks ! (k - 1)) * 1000)"
      using "1.prems"(5) by simp
    show ?thesis
    proof (cases "?q \<ge> 300 \<and> ?q \<le> 1500")
      case keep: True
      have "calcRr_loop peaks peakCount fs (Suc i) (rr @ [?q]) =
              Inr ((rr @ [?q]) @ filter (\<lambda>r. 300 \<le> r \<and> r \<le> 1500)
                 (map (\<lambda>k. trunc_quot ((peaks ! k - peaks ! (k - 1)) * 1000) fs) [Suc i..<length peaks]))"
        using "1.IH"(1) [OF True r1 r0 dv keep st "1.prems"(1,2) _ _ rest] "1.prems"(3,4) by simp
      then show ?thesis
        using True r0 r1 dv st lt keep
        by (subst calcRr_loop.simps) (simp add: upt_conv_Cons)
    next
      case drop: False
      have "calcRr_loop peaks peakCount fs (Suc i) rr =
              Inr (rr @ filter (\<lambda>r. 300 \<le> r \<and> r \<le> 1500)
                 (map (\<lambda>k. trunc_quot ((peaks ! k - peaks ! (k - 1)) * 1000) fs) [Suc i..<length peaks]))"
        using "1.IH"(2) [OF True r1 r0 dv drop "1.prems"(1,2) _ _ rest] "1.prems"(3,4) by simp
      then show ?thesis
        using True r0 r1 dv lt drop
        by (subst calcRr_loop.simps) (auto simp: upt_conv_Cons)
    qed
  next
    case False
    with "1.prems" have "\<not> i < length peaks" by linarith
    then show ?thesis
      using False by (subst calcRr_loop.simps) simp
  qed
qed

text \<open>
  Claim C4 as stated fails. The two peaks \<open>0\<close> and \<open>4294968\<close> at \<open>fs = 1\<close> are
  \<open>4294968000\<close> ms apart, far above 1500; the 32-bit product \<open>4294968 * 1000\<close> wraps to
  \<open>704\<close>, and \<^verbatim>\<open>calcRrIntervals\<close> keeps \<open>704\<close> as an interval.
\<close>

theorem calcRrIntervals_wrapped_product_counterexample:
  "calcRrIntervals [0, 4294968] 1 = Inr (Arr [704], 1)
   \<and> trunc_quot ((4294968 - 0) * 1000) 1 = 4294968000
   \<and> \<not> (4294968000 :: int) \<le> 1500"
  by (simp add: calcRrIntervals_def calcRr_loop.simps rd_def c_div_def wrap32_def trunc_quot_def
        store_next_def)

text \<open>
  Claim C4, amended. For a sampling rate \<open>fs > 0\<close> and peaks whose consecutive
  differences times 1000 are values of the 32-bit \<^verbatim>\<open>int\<close>, \<^verbatim>\<open>calcRrIntervals\<close>
  returns, in order, exactly those of the intervals
  \<open>(peaks[i] - peaks[i - 1]) * 1000 / fs\<close> (C integer division) of consecutive peaks that
  lie in \<open>[300, 1500]\<close>, with \<^verbatim>\<open>*rrCount\<close> their number; intervals outside the range
  are dropped, not clamped. With fewer than two peaks it returns the empty sequence and no
  error.
\<close>

theorem calcRrIntervals_filtered_intervals:
  assumes "0 < fs"
    and "\<forall>i\<in>{1..<length peaks}. fits_int32 ((peaks ! i - peaks ! (i - 1)) * 1000)"
  shows "\<exists>out. calcRrIntervals peaks fs = Inr (out, int (length (elems out)))
           \<and> elems out = filter (\<lambda>r. 300 \<le> r \<and> r \<le> 1500)
                (map (\<lambda>i. trunc_quot ((peaks ! i - peaks ! (i - 1)) * 1000) fs) [1..<length peaks])
           \<and> calcRrIntervals [] fs = Inr (Null, 0)
           \<and> calcRrIntervals [p] fs = Inr (Null, 0)"
proof (cases "length peaks < 2")
  case True
  then have "[1..<length peaks] = []" by simp
  then show ?thesis using True by (simp add: calcRrIntervals_def)
next
  case False
  then show ?thesis
    using assms calcRr_loop_eq [of fs "int (length peaks)" peaks 1 "[]"]
    by (simp add: calcRrIntervals_def)
qed

theorem calcRrIntervals_filtered_intervals_witness:
  "(0::int) < 200 \<and> (\<exists>out. calcRrIntervals [0, 100, 130, 500] 200 = Inr (out, 1) \<and> elems out = [500])"
proof -
  have fit: "\<forall>i\<in>{1..<length [0, 100, 130, 500 :: int]}.
               fits_int32 (([0, 100, 130, 500] ! i - [0, 100, 130, 500] ! (i - 1)) * 1000)"
    by (auto simp: fits_int32_def less_Suc_eq numeral_eq_Suc)
  have pos: "(0::int) < 200" by simp
  from calcRrIntervals_filtered_intervals [OF pos fit, of 0]
  show ?thesis
    by (auto simp: trunc_quot_def upt_conv_Cons)
qed

subsection \<open>The refractory distance of valleys and peaks\<close>

lemma rd_nth: "i < length a \<Longrightarrow> rd a (int i) = Inr (a ! i)"
  by (simp add: rd_def)










lemma refractory_nth:
  "refractory th xs \<longleftrightarrow> (\<forall>k. Suc k < length xs \<longrightarrow> th < xs ! Suc k - xs ! k)"
proof (induction th xs rule: refractory.induct)
  case (1 th a b xs)
  show ?case
  proof
    assume l: "refractory th (a # b # xs)"
    show "\<forall>k. Suc k < length (a # b # xs) \<longrightarrow> th < (a # b # xs) ! Suc k - (a # b # xs) ! k"
    proof (intro allI impI)
      fix k assume "Suc k < length (a # b # xs)"
      then show "th < (a # b # xs) ! Suc k - (a # b # xs) ! k"
        using l 1 by (cases k) auto
    qed
  next
    assume r: "\<forall>k. Suc k < length (a # b # xs) \<longrightarrow> th < (a # b # xs) ! Suc k - (a # b # xs) ! k"
    from r [rule_format, of 0] have "th < b - a" by simp
    moreover have "\<forall>k. Suc k < length (b # xs) \<longrightarrow> th < (b # xs) ! Suc k - (b # xs) ! k"
    proof (intro allI impI)
      fix k assume "Suc k < length (b # xs)"
      then show "th < (b # xs) ! Suc k - (b # xs) ! k"
        using r [rule_format, of "Suc k"] by simp
    qed
    ultimately show "refractory th (a # b # xs)" using 1 by simp
  qed
qed (auto simp: less_Suc_eq_0_disj)



subsection \<open>The moving average\<close>












subsection \<open>Noise elimination\<close>

lemma segment_loop_eq:
  "0 \<le> j \<Longrightarrow> e < int (length signal) \<Longrightarrow>
   segment_loop body signal j e acc = Inr (foldl body acc (map (\<lambda>k. signal ! nat k) [j..e]))"
proof (induction body signal j e acc rule: segment_loop.induct)
  case (1 body signal j e acc)
  show ?case
  proof (cases "j \<le> e")
    case False
    then show ?thesis by (subst segment_loop.simps) simp
  next
    case True
    have r: "rd signal j = Inr (signal ! nat j)"
      using True "1.prems" by (simp add: rd_def)
    have "segment_loop body signal (j + 1) e (body acc (signal ! nat j)) =
            Inr (foldl body (body acc (signal ! nat j)) (map (\<lambda>k. signal ! nat k) [j + 1..e]))"
      using "1.IH" [OF True r] "1.prems" by simp
    then show ?thesis
      using True r by (subst segment_loop.simps) (simp add: upto_rec1 [of j e])
  qed
qed

lemma segment_statistics_ok:
  "0 \<le> fst seg \<Longrightarrow> snd seg < int (length signal) \<Longrightarrow> \<exists>st. segment_statistics signal seg = Inr st"
  by (simp add: segment_statistics_def segment_loop_eq Let_def)

lemma statistic_loop_ok:
  "\<forall>seg\<in>set valleys. 0 \<le> fst seg \<and> snd seg < int (length signal) \<Longrightarrow>
   \<exists>a b c. statistic_loop signal valleys (A, B, C) = Inr (A @ a, B @ b, C @ c)
     \<and> length a = length valleys \<and> length b = length valleys \<and> length c = length valleys"
proof (induction valleys arbitrary: A B C)
  case Nil
  show ?case by simp
next
  case (Cons seg valleys)
  from Cons.prems obtain sd kurt skew where st: "segment_statistics signal seg = Inr (sd, kurt, skew)"
    using segment_statistics_ok [of seg signal] by (metis list.set_intros(1) prod_cases3)
  from Cons.IH [of "A @ [sd]" "B @ [kurt]" "C @ [skew]"] Cons.prems
  obtain a b c where
    "statistic_loop signal valleys (A @ [sd], B @ [kurt], C @ [skew]) = Inr ((A @ [sd]) @ a, (B @ [kurt]) @ b, (C @ [skew]) @ c)"
    "length a = length valleys" "length b = length valleys" "length c = length valleys"
    by auto
  then have "statistic_loop signal (seg # valleys) (A, B, C) = Inr (A @ (sd # a), B @ (kurt # b), C @ (skew # c))
     \<and> length (sd # a) = length (seg # valleys) \<and> length (kurt # b) = length (seg # valleys)
     \<and> length (skew # c) = length (seg # valleys)"
    using st by simp
  then show ?case by blast
qed

lemma valid_loop_eq:
  "length stds = n \<Longrightarrow> length kurtosiss = n \<Longrightarrow> length skews = n \<Longrightarrow> length acc \<le> i \<Longrightarrow>
   valid_loop stds kurtosiss skews (int n) thr i acc =
     Inr (acc @ map int (filter (retained (stds, kurtosiss, skews) thr) [i..<n]))"
proof (induction stds kurtosiss skews "int n" thr i acc rule: valid_loop.induct)
  case (1 stds kurtosiss skews thr i acc)
  obtain std_ths kurt_ths lo hi where thr: "thr = (std_ths, kurt_ths, lo, hi)"
    by (cases thr) auto
  show ?case
  proof (cases "i < n")
    case False
    then show ?thesis by (subst valid_loop.simps) simp
  next
    case True
    then have cond: "int i < int n" by simp
    have r: "rd stds (int i) = Inr (stds ! i)" "rd kurtosiss (int i) = Inr (kurtosiss ! i)"
      "rd skews (int i) = Inr (skews ! i)"
      using True "1.prems" by (simp_all add: rd_nth)
    let ?keep = "flt (stds ! i) std_ths \<and> flt (kurtosiss ! i) kurt_ths \<and> fgt (skews ! i) lo \<and> flt (skews ! i) hi"
    have ret: "retained (stds, kurtosiss, skews) thr i = ?keep"
      by (simp add: retained_def thr fgt_def)
    show ?thesis
    proof (cases ?keep)
      case keep: True
      have st: "store_next (int n) acc (int i) = Inr (acc @ [int i])"
        using True "1.prems" by (simp add: store_next_def)
      have "valid_loop stds kurtosiss skews (int n) thr (Suc i) (acc @ [int i]) =
              Inr ((acc @ [int i]) @ map int (filter (retained (stds, kurtosiss, skews) thr) [Suc i..<n]))"
        using "1.hyps"(1) [OF cond r thr [symmetric] refl refl keep st] "1.prems" by simp
      then show ?thesis
        using cond r keep st ret True thr
        by (subst valid_loop.simps) (simp add: upt_conv_Cons)
    next
      case drop: False
      have "valid_loop stds kurtosiss skews (int n) thr (Suc i) acc =
              Inr (acc @ map int (filter (retained (stds, kurtosiss, skews) thr) [Suc i..<n]))"
        using "1.hyps"(2) [OF cond r thr [symmetric] refl refl drop] "1.prems" by simp
      then show ?thesis
        using cond r drop ret True thr
        by (subst valid_loop.simps) (auto simp: upt_conv_Cons)
    qed
  qed
qed

lemma final_size_loop_eq:
  "\<forall>k\<in>set ks. k < length valleys \<Longrightarrow>
   final_size_loop valleys (map int ks) z =
     Inr (z + sum_list (map (\<lambda>k. snd (valleys ! k) - fst (valleys ! k) + 1) ks))"
  by (induction ks arbitrary: z) (simp_all add: rd_nth)

lemma copy_segment_eq:
  "0 \<le> j \<Longrightarrow> e < int (length data) \<Longrightarrow> int (length acc) + (e - j + 1) \<le> cap \<Longrightarrow>
   copy_segment data cap j e acc = Inr (acc @ map (\<lambda>k. data ! nat k) [j..e])"
proof (induction data cap j e acc rule: copy_segment.induct)
  case (1 data cap j e acc)
  show ?case
  proof (cases "j \<le> e")
    case False
    then show ?thesis by (subst copy_segment.simps) simp
  next
    case True
    let ?x = "data ! nat j"
    have r: "rd data j = Inr ?x"
      using True "1.prems" by (simp add: rd_def)
    have st: "store_next cap acc ?x = Inr (acc @ [?x])"
      using True "1.prems" by (simp add: store_next_def)
    have "copy_segment data cap (j + 1) e (acc @ [?x]) =
            Inr ((acc @ [?x]) @ map (\<lambda>k. data ! nat k) [j + 1..e])"
      using "1.IH" [OF True r st] "1.prems" by simp
    then show ?thesis
      using True r st by (subst copy_segment.simps) (simp add: upto_rec1 [of j e])
  qed
qed

lemma length_segment_samples:
  "length (segment_samples data seg) = nat (snd seg - fst seg + 1)"
  by (simp add: segment_samples_def)

lemma copy_loop_eq:
  "\<forall>k\<in>set ks. k < length valleys \<and> 0 \<le> fst (valleys ! k) \<and> fst (valleys ! k) \<le> snd (valleys ! k)
       \<and> snd (valleys ! k) < int (length data) \<Longrightarrow>
   int (length acc) + sum_list (map (\<lambda>k. snd (valleys ! k) - fst (valleys ! k) + 1) ks) \<le> cap \<Longrightarrow>
   copy_loop data valleys cap (map int ks) acc =
     Inr (acc @ concat (map (\<lambda>k. segment_samples data (valleys ! k)) ks))"
proof (induction ks arbitrary: acc)
  case Nil
  show ?case by simp
next
  case (Cons k ks)
  let ?seg = "valleys ! k"
  let ?len = "\<lambda>k. snd (valleys ! k) - fst (valleys ! k) + 1"
  from Cons.prems(1) have k: "k < length valleys" "0 \<le> fst ?seg" "fst ?seg \<le> snd ?seg"
    "snd ?seg < int (length data)" by simp_all
  have "\<And>x. x \<in> set (map ?len ks) \<Longrightarrow> 0 \<le> x" using Cons.prems(1) by auto
  then have nonneg: "0 \<le> sum_list (map ?len ks)" by (rule sum_list_nonneg)
  have r: "rd valleys (int k) = Inr ?seg" using k(1) by (rule rd_nth)
  have cs: "copy_segment data cap (fst ?seg) (snd ?seg) acc = Inr (acc @ segment_samples data ?seg)"
    unfolding segment_samples_def
    using k nonneg Cons.prems(2) by (intro copy_segment_eq) simp_all
  have "int (length (acc @ segment_samples data ?seg)) + sum_list (map ?len ks) \<le> cap"
    using Cons.prems(2) k by (simp add: length_segment_samples)
  from Cons.IH [OF _ this] Cons.prems(1)
  have "copy_loop data valleys cap (map int ks) (acc @ segment_samples data ?seg) =
          Inr ((acc @ segment_samples data ?seg) @ concat (map (\<lambda>k. segment_samples data (valleys ! k)) ks))"
    by simp
  then show ?case using r cs by simp
qed

lemma length_concat_segments:
  "\<forall>k\<in>set ks. fst (valleys ! k) \<le> snd (valleys ! k) \<Longrightarrow>
   int (length (concat (map (\<lambda>k. segment_samples data (valleys ! k)) ks)))
     = sum_list (map (\<lambda>k. snd (valleys ! k) - fst (valleys ! k) + 1) ks)"
  by (induction ks) (simp_all add: length_segment_samples)

text \<open>
  Claim C5. On segments that lie inside the data (\<open>0 \<le> start \<le> end < size\<close>), the
  segment overload of \<^verbatim>\<open>eliminateNoiseInTime\<close> retains segment \<open>i\<close> exactly when its
  standard deviation is below the std threshold, its kurtosis below the kurtosis threshold
  and its skewness strictly between the two skewness thresholds, statistics and thresholds
  being those of \<^verbatim>\<open>statisticDetection\<close> and \<^verbatim>\<open>statisticThreshold\<close>. The output is
  the concatenation of the samples \<open>data[start .. end]\<close> of the retained segments in their
  original order, \<^verbatim>\<open>*newSize\<close> is its length, and no error branch is reached; when no
  segment is retained the output is empty.
\<close>

theorem eliminateNoiseInTime_retained_segments:
  assumes "\<forall>seg\<in>set valleys. 0 \<le> fst seg \<and> fst seg \<le> snd seg \<and> snd seg < int (length data)"
  shows "\<exists>stds kurtosiss skews out.
           statisticDetection data valleys = Inr (stds, kurtosiss, skews)
         \<and> eliminateNoiseInTime data ths valleys = Inr (Arr out, int (length out))
         \<and> out = concat (map (\<lambda>i. segment_samples data (valleys ! i))
                   (filter (retained (stds, kurtosiss, skews) (statisticThreshold stds kurtosiss skews ths))
                      [0..<length valleys]))"
proof -
  from assms have "\<forall>seg\<in>set valleys. 0 \<le> fst seg \<and> snd seg < int (length data)" by simp
  from statistic_loop_ok [OF this, of "[]" "[]" "[]"]
  obtain stds kurtosiss skews where
    sd: "statisticDetection data valleys = Inr (stds, kurtosiss, skews)"
    and len: "length stds = length valleys" "length kurtosiss = length valleys" "length skews = length valleys"
    by (auto simp: statisticDetection_def)
  let ?thr = "statisticThreshold stds kurtosiss skews ths"
  let ?ks = "filter (retained (stds, kurtosiss, skews) ?thr) [0..<length valleys]"
  let ?out = "concat (map (\<lambda>i. segment_samples data (valleys ! i)) ?ks)"
  let ?size = "sum_list (map (\<lambda>k. snd (valleys ! k) - fst (valleys ! k) + 1) ?ks)"
  have vl: "valid_loop stds kurtosiss skews (int (length valleys)) ?thr 0 [] = Inr (map int ?ks)"
    using valid_loop_eq [OF len, of "[]" 0 ?thr] by simp
  have wf: "\<forall>k\<in>set ?ks. k < length valleys \<and> 0 \<le> fst (valleys ! k) \<and> fst (valleys ! k) \<le> snd (valleys ! k)
       \<and> snd (valleys ! k) < int (length data)"
    using assms by simp
  then have "\<forall>k\<in>set ?ks. k < length valleys" by blast
  then have fs: "final_size_loop valleys (map int ?ks) 0 = Inr ?size"
    using final_size_loop_eq [of ?ks valleys 0] by simp
  have cl: "copy_loop data valleys ?size (map int ?ks) [] = Inr ?out"
    using copy_loop_eq [OF wf, of "[]" ?size] by simp
  from wf have "\<forall>k\<in>set ?ks. fst (valleys ! k) \<le> snd (valleys ! k)" by blast
  then have sz: "int (length ?out) = ?size" by (rule length_concat_segments)
  have "eliminateNoiseInTime data ths valleys = Inr (Arr ?out, int (length ?out))"
    unfolding eliminateNoiseInTime_def using sd vl fs cl sz by (simp add: Let_def)
  with sd show ?thesis by blast
qed

theorem eliminateNoiseInTime_retained_segments_witness:
  "statisticDetection [Fin 1, Fin 3, Fin 1, Fin 3, Fin 1, Fin 5] [(0, 1), (2, 3), (4, 5)]
       = Inr ([Fin 1, Fin 1, Fin 2], [Fin (- 2), Fin (- 2), Fin (- 2)], [Fin 0, Fin 0, Fin 0])
   \<and> eliminateNoiseInTime [Fin 1, Fin 3, Fin 1, Fin 3, Fin 1, Fin 5]
         (Fin (1 / 2), Fin (1 / 2), Fin (1 / 2), Fin (1 / 2)) [(0, 1), (2, 3), (4, 5)]
       = Inr (Arr [Fin 1, Fin 3, Fin 1, Fin 3], 4)"
proof -
  let ?data = "[Fin 1, Fin 3, Fin 1, Fin 3, Fin 1, Fin 5]"
  let ?valleys = "[(0, 1), (2, 3), (4, 5)] :: (int \<times> int) list"
  let ?ths = "(Fin (1 / 2), Fin (1 / 2), Fin (1 / 2), Fin (1 / 2))"
  have wf: "\<forall>seg\<in>set ?valleys. 0 \<le> fst seg \<and> fst seg \<le> snd seg \<and> snd seg < int (length ?data)"
    by simp
  have sd: "statisticDetection ?data ?valleys
       = Inr ([Fin 1, Fin 1, Fin 2], [Fin (- 2), Fin (- 2), Fin (- 2)], [Fin 0, Fin 0, Fin 0])"
    by (simp add: statisticDetection_def segment_statistics_def segment_loop.simps rd_def
          float_of_int_def fsub_def fpow_def Let_def)
  have thr: "statisticThreshold [Fin 1, Fin 1, Fin 2] [Fin (- 2), Fin (- 2), Fin (- 2)] [Fin 0, Fin 0, Fin 0] ?ths
       = (Fin (11 / 6), Fin (- 3 / 2), Fin (- 1 / 2), Fin (1 / 2))"
    by (simp add: statisticThreshold_def fsum_def float_of_int_def fsub_def Let_def)
  have keep: "filter (retained ([Fin 1, Fin 1, Fin 2], [Fin (- 2), Fin (- 2), Fin (- 2)], [Fin 0, Fin 0, Fin 0])
                 (Fin (11 / 6), Fin (- 3 / 2), Fin (- 1 / 2), Fin (1 / 2))) [0..<length ?valleys] = [0, 1]"
    by (simp add: retained_def upt_conv_Cons)
  from eliminateNoiseInTime_retained_segments [OF wf, of ?ths]
  obtain stds kurtosiss skews out where
    a: "statisticDetection ?data ?valleys = Inr (stds, kurtosiss, skews)"
    and b: "eliminateNoiseInTime ?data ?ths ?valleys = Inr (Arr out, int (length out))"
    and c: "out = concat (map (\<lambda>i. segment_samples ?data (?valleys ! i))
                   (filter (retained (stds, kurtosiss, skews) (statisticThreshold stds kurtosiss skews ?ths))
                      [0..<length ?valleys]))"
    by blast
  from a sd have eqs: "stds = [Fin 1, Fin 1, Fin 2]" "kurtosiss = [Fin (- 2), Fin (- 2), Fin (- 2)]"
    "skews = [Fin 0, Fin 0, Fin 0]" by simp_all
  have "out = [Fin 1, Fin 3, Fin 1, Fin 3]"
    unfolding c eqs thr keep by (simp add: segment_samples_def upto_rec1)
  with b have "eliminateNoiseInTime ?data ?ths ?valleys = Inr (Arr [Fin 1, Fin 3, Fin 1, Fin 3], 4)"
    by simp
  with sd show ?thesis by blast
qed

subsection \<open>Divisions by zero and the peak buffer\<close>

lemma calculateHRVMetrics_single:
  "calculateHRVMetrics [r] = Inr (Arr [fdiv (Fin 60000) (float_of_int r), Fin 0, NaN], 3)"
  by (simp add: calculateHRVMetrics_def fsum_def float_of_int_def fsub_def fpow_def Let_def
        sumOfSquares_loop.simps)

lemma calculateHRVMetrics_empty: "calculateHRVMetrics [] = Inr (Null, 0)"
  by (simp add: calculateHRVMetrics_def)

text \<open>
  Claim C1 fails on the code for a single interval. On the one interval \<open>800\<close> the
  function reports three metrics: heart rate \<open>75\<close>, SDNN \<open>0\<close>, and for RMSSD the value
  \<open>sqrt (0 / 0)\<close>, which is \<open>NaN\<close>, not a marker of unavailability.
\<close>

theorem calculateHRVMetrics_single_interval_rmssd_nan:
  "calculateHRVMetrics [800] = Inr (Arr [Fin 75, Fin 0, NaN], 3)"
  by (simp add: calculateHRVMetrics_def fsum_def float_of_int_def fsub_def fpow_def Let_def
        sumOfSquares_loop.simps)

lemma segment_statistics_single_sample:
  assumes "0 \<le> k" "k < int (length signal)" "signal ! nat k = Fin x"
  shows "segment_statistics signal (k, k) = Inr (Fin 0, NaN, NaN)"
proof -
  have "[k..k] = [k]" by (simp add: upto_rec1)
  then have "\<And>body acc. segment_loop body signal k k acc = Inr (body acc (Fin x))"
    using assms by (simp add: segment_loop_eq)
  then show ?thesis
    by (simp add: segment_statistics_def Let_def float_of_int_def fsub_def fpow_def)
qed

text \<open>
  Claim C2 fails on the code. For the one-sample segment \<open>[0, 0]\<close> the variance is zero,
  and kurtosis and skewness are both computed as \<open>0 / 0\<close>: the function stores \<open>NaN\<close>
  for them, with no guard and no fallback value.
\<close>

theorem statisticDetection_single_sample_segment_nan:
  "statisticDetection [Fin 5] [(0, 0)] = Inr ([Fin 0], [NaN], [NaN])"
  by (simp add: statisticDetection_def segment_statistics_def segment_loop.simps rd_def
        float_of_int_def fsub_def fpow_def Let_def)

text \<open>
  Claim C8 fails on the code. On ten samples with \<open>min_distance = 0\<close> the block has room
  for one peak and the scan accepts a second one; on 27 samples at 25 Hz with the usual
  factors \<open>0.9\<close> and \<open>0.4\<close> the block has room for two peaks and the scan accepts a
  third one, 12 samples after the second. Each time the write goes past the end of
  \<^verbatim>\<open>peakList\<close>.
\<close>

theorem thresholdPeakDetection_overflows_peakList:
  "thresholdPeakDetection [Fin 0, Fin 1, Fin 0, Fin 1, Fin 0, Fin 1, Fin 0, Fin 1, Fin 0, Fin 1]
      25 (Fin (9 / 10)) (Fin 0) = Inl HeapOverflow
   \<and> thresholdPeakDetection
      [Fin 0, Fin 1, Fin 0, Fin 0, Fin 0, Fin 0, Fin 0, Fin 0, Fin 0, Fin 0,
       Fin 0, Fin 0, Fin 0, Fin 1, Fin 0, Fin 0, Fin 0, Fin 0, Fin 0, Fin 0,
       Fin 0, Fin 0, Fin 0, Fin 0, Fin 0, Fin 1, Fin 0]
      25 (Fin (9 / 10)) (Fin (4 / 10)) = Inl HeapOverflow"
  by (simp add: thresholdPeakDetection_def th_elapsed_0_25 th_elapsed_04_25 fsum_def float_of_int_def
        peak_scan.simps rd_def distance_ok_def store_next_def fge_def fgt_def)

end
